theory Spec2Isabelle
  imports Complex_Main
begin

section \<open>AI learning roadmap generator: a model of \<open>app.py\<close>\<close>

text \<open>
  The development follows \<open>src/app.py\<close>. Python strings are modelled as \<open>string\<close>,
  lists of characters, a character being a code point below 256; the character classes
  below are Python's on these code points. Python integers are \<open>int\<close>, Python floats are
  real numbers, so that rounding is not modelled. Every exception the code can raise is
  a value of \<open>error\<close>, and a fallible function returns \<open>error + 'a\<close> with \<open>Inl\<close> for the
  raised exception.
\<close>

datatype error = KeyError | ValueError | IndexError

subsection \<open>Python built-ins used by the code\<close>

definition is_digit :: "char \<Rightarrow> bool" where
  \<comment> \<open>the regular-expression class \<open>\d\<close>: below 256 the decimal digits are \<open>0\<close> to \<open>9\<close>\<close>
  "is_digit c = (48 \<le> (of_char c :: nat) \<and> (of_char c :: nat) \<le> 57)"

definition digit_val :: "char \<Rightarrow> int" where
  "digit_val c = int (of_char c) - 48"

definition py_isspace :: "char \<Rightarrow> bool" where
  \<comment> \<open>\<open>str.isspace\<close> on one character: tab, newline, vertical tab, form feed, carriage
      return, the four separators \<open>0x1c\<close> to \<open>0x1f\<close>, the space, next line \<open>0x85\<close> and the
      no-break space \<open>0xa0\<close>\<close>
  "py_isspace c = (of_char c \<in> {9, 10, 11, 12, 13, 28, 29, 30, 31, 32, 133, 160 :: nat})"

definition strip :: "string \<Rightarrow> string" where
  \<comment> \<open>\<open>s.strip()\<close>: leading and trailing whitespace removed\<close>
  "strip s = rev (dropWhile py_isspace (rev (dropWhile py_isspace s)))"

fun split_newline :: "string \<Rightarrow> string list" where
  \<comment> \<open>\<open>s.split("\n")\<close>: the pieces between newline characters, at least one piece\<close>
  "split_newline [] = [[]]"
| "split_newline (c # cs) =
     (if c = CHR 0x0A then [] # split_newline cs
      else (case split_newline cs of
              [] \<Rightarrow> [[c]]
            | p # ps \<Rightarrow> (c # p) # ps))"

definition py_prefix :: "int \<Rightarrow> 'a list \<Rightarrow> 'a list" where
  \<comment> \<open>the slice \<open>xs[:n]\<close>; a negative \<open>n\<close> counts from the end\<close>
  "py_prefix n xs =
     (if 0 \<le> n then take (nat n) xs else take (length xs - nat (- n)) xs)"

definition py_suffix :: "int \<Rightarrow> 'a list \<Rightarrow> 'a list" where
  \<comment> \<open>the slice \<open>xs[n:]\<close>; a negative \<open>n\<close> counts from the end\<close>
  "py_suffix n xs =
     (if 0 \<le> n then drop (nat n) xs else drop (length xs - nat (- n)) xs)"

definition int_max_str_digits :: nat where
  \<comment> \<open>CPython's default limit on the number of digits of a string that \<open>int\<close> converts
      (\<open>sys.int_info.default_max_str_digits\<close>)\<close>
  "int_max_str_digits = 4300"

definition py_int :: "string \<Rightarrow> error + int" where
  \<comment> \<open>\<open>int(s)\<close> for a literal made of decimal digits only, the one shape a match of
      \<open>\d+\<close> has; the value is read most significant digit first. A literal of more
      digits than the limit raises ValueError, leading zeros counted. The empty string
      and any other character raise ValueError here (CPython also accepts a sign,
      surrounding whitespace and underscores, which a digit run never contains).\<close>
  "py_int s =
     (if s \<noteq> [] \<and> list_all is_digit s \<and> length s \<le> int_max_str_digits
      then Inr (foldl (\<lambda>a c. 10 * a + digit_val c) 0 s)
      else Inl ValueError)"

definition re_search_digits :: "string \<Rightarrow> string option" where
  \<comment> \<open>\<open>re.search(r"\d+", s)\<close>: the leftmost match, extended greedily; \<open>None\<close> when
      no digit occurs. The result is the matched text \<open>m.group()\<close>.\<close>
  "re_search_digits s =
     (case dropWhile (\<lambda>c. \<not> is_digit c) s of
        [] \<Rightarrow> None
      | d # r \<Rightarrow> Some (takeWhile is_digit (d # r)))"

subsection \<open>The standard library's \<open>textwrap.wrap\<close>\<close>

text \<open>
  The code wraps every step with \<open>textwrap.wrap(text, 38)\<close>, that is with a
  \<open>TextWrapper\<close> whose options have their default values: tabs are expanded, whitespace
  is replaced by spaces, whitespace at the ends of a line is dropped, long words are
  broken (\<open>break_long_words = True\<close>), also after hyphens, both indents are empty and
  there is no limit on the number of lines. The definitions follow CPython's
  \<open>Lib/textwrap.py\<close> (version 3.11) with these options fixed.
\<close>

definition tw_whitespace :: "char \<Rightarrow> bool" where
  \<comment> \<open>the module's \<open>_whitespace\<close>: tab, newline, vertical tab, form feed, carriage
      return and space\<close>
  "tw_whitespace c = (of_char c \<in> {9, 10, 11, 12, 13, 32 :: nat})"

definition is_word :: "char \<Rightarrow> bool" where
  \<comment> \<open>the class \<open>\w\<close>: the ASCII letters and digits, the underscore, and the alphanumeric
      code points from 128 to 255 (the letters but \<open>0xd7\<close> and \<open>0xf7\<close>, the ordinal
      indicators, the micro sign, the superscript digits and the fractions)\<close>
  "is_word c =
     (let n = (of_char c :: nat)
      in (65 \<le> n \<and> n \<le> 90) \<or> (97 \<le> n \<and> n \<le> 122) \<or> (48 \<le> n \<and> n \<le> 57) \<or> n = 95 \<or>
         n = 170 \<or> n = 178 \<or> n = 179 \<or> n = 181 \<or> n = 185 \<or> n = 186 \<or>
         (188 \<le> n \<and> n \<le> 190) \<or> (192 \<le> n \<and> n \<le> 214) \<or> (216 \<le> n \<and> n \<le> 246) \<or>
         (248 \<le> n \<and> n \<le> 255))"

definition word_punct :: "char \<Rightarrow> bool" where
  \<comment> \<open>\<open>word_punct\<close>: a word character or one of \<open>! " ' & . , ?\<close>\<close>
  "word_punct c = (is_word c \<or> of_char c \<in> {33, 34, 39, 38, 46, 44, 63 :: nat})"

definition letter :: "char \<Rightarrow> bool" where
  \<comment> \<open>\<open>letter\<close>: a word character that is not a digit\<close>
  "letter c = (is_word c \<and> \<not> is_digit c)"

definition is_hyphen :: "char \<Rightarrow> bool" where
  "is_hyphen c = (c = CHR ''-'')"

fun expandtabs :: "nat \<Rightarrow> nat \<Rightarrow> string \<Rightarrow> string" where
  \<comment> \<open>\<open>str.expandtabs(tabsize)\<close>, with the column reached so far as second argument: a
      tab becomes the spaces up to the next tab stop, a newline or carriage return
      starts the columns again\<close>
  "expandtabs tabsize line_pos [] = []"
| "expandtabs tabsize line_pos (ch # s) =
     (if ch = CHR 0x09 then
        (if tabsize > 0 then
           (let incr = tabsize - line_pos mod tabsize
            in replicate incr (CHR '' '') @ expandtabs tabsize (line_pos + incr) s)
         else expandtabs tabsize line_pos s)
      else ch # expandtabs tabsize
                  (if ch = CHR 0x0A \<or> ch = CHR 0x0D then 0 else line_pos + 1) s)"

definition munge_whitespace :: "string \<Rightarrow> string" where
  "munge_whitespace text =
     map (\<lambda>c. if tw_whitespace c then CHR '' '' else c) (expandtabs 8 0 text)"

text \<open>
  \<open>wordsep_re\<close> has three alternatives: a run of whitespace; a run of two or more
  hyphens after a \<open>word_punct\<close> character and before a word character; and a shortest
  non-empty run of non-whitespace that ends after a hyphen inside a hyphenated word, or
  before whitespace or the end of the text, or before such a run of hyphens. The
  functions below decide these conditions at one position of the text: \<open>bef\<close> is the
  text before the position, nearest character first, and \<open>rest\<close> the text from the
  position on.
\<close>

definition emdash_here :: "string \<Rightarrow> bool" where
  \<comment> \<open>\<open>-{2,}\<close> followed by \<open>\w\<close>\<close>
  "emdash_here rest =
     (2 \<le> length (takeWhile is_hyphen rest) \<and>
      (case dropWhile is_hyphen rest of [] \<Rightarrow> False | c # _ \<Rightarrow> is_word c))"

definition wp_before :: "string \<Rightarrow> bool" where
  \<comment> \<open>the lookbehind for one \<open>word_punct\<close> character\<close>
  "wp_before bef = (case bef of [] \<Rightarrow> False | b # _ \<Rightarrow> word_punct b)"

definition hyphen_break :: "string \<Rightarrow> string \<Rightarrow> bool" where
  \<comment> \<open>a hyphen that follows two letters, or letter, hyphen, letter, and that is
      followed by two letters or by letter, hyphen, letter\<close>
  "hyphen_break bef rest =
     (case rest of
        [] \<Rightarrow> False
      | h # r \<Rightarrow>
          is_hyphen h \<and>
          (case bef of
             l1 # l2 # t \<Rightarrow>
               letter l1 \<and> (letter l2 \<or> (is_hyphen l2 \<and> (case t of [] \<Rightarrow> False | l3 # _ \<Rightarrow> letter l3)))
           | _ \<Rightarrow> False) \<and>
          (case r of
             a # b # t \<Rightarrow>
               letter a \<and> (if is_hyphen b then (case t of [] \<Rightarrow> False | c # _ \<Rightarrow> letter c) else letter b)
           | _ \<Rightarrow> False))"

fun word_chunk :: "string \<Rightarrow> string \<Rightarrow> string" where
  \<comment> \<open>the third alternative after its first character: the rest of the chunk\<close>
  "word_chunk bef [] = []"
| "word_chunk bef (c # r) =
     (if hyphen_break bef (c # r) then [c]
      else if tw_whitespace c \<or> (wp_before bef \<and> emdash_here (c # r)) then []
      else c # word_chunk (c # bef) r)"

function wordsep_split :: "string \<Rightarrow> string \<Rightarrow> string list" where
  \<comment> \<open>\<open>[c for c in wordsep_re.split(text) if c]\<close>: the successive matches. The pattern
      matches at every position before the end of the text, so the pieces that
      \<open>split\<close> returns between the matches are empty and are filtered out.\<close>
  "wordsep_split bef [] = []"
| "wordsep_split bef (c # r) =
     (if tw_whitespace c then
        takeWhile tw_whitespace (c # r)
          # wordsep_split (rev (takeWhile tw_whitespace (c # r)) @ bef)
                          (dropWhile tw_whitespace (c # r))
      else if wp_before bef \<and> emdash_here (c # r) then
        takeWhile is_hyphen (c # r)
          # wordsep_split (rev (takeWhile is_hyphen (c # r)) @ bef)
                          (dropWhile is_hyphen (c # r))
      else
        (c # word_chunk (c # bef) r)
          # wordsep_split (rev (word_chunk (c # bef) r) @ c # bef)
                          (drop (length (word_chunk (c # bef) r)) r))"
  by pat_completeness auto
termination
proof (relation "measure (\<lambda>(bef, rest). length rest)")
  show "wf (measure (\<lambda>(bef, rest). length rest))"
    by simp
next
  fix bef :: string and c r
  assume "tw_whitespace c"
  then show "((rev (takeWhile tw_whitespace (c # r)) @ bef, dropWhile tw_whitespace (c # r)),
              (bef, c # r)) \<in> measure (\<lambda>(bef, rest). length rest)"
    using length_dropWhile_le [of tw_whitespace r] by simp
next
  fix bef :: string and c r
  assume "wp_before bef \<and> emdash_here (c # r)"
  then have "is_hyphen c"
    by (cases "is_hyphen c") (simp_all add: emdash_here_def)
  then show "((rev (takeWhile is_hyphen (c # r)) @ bef, dropWhile is_hyphen (c # r)),
              (bef, c # r)) \<in> measure (\<lambda>(bef, rest). length rest)"
    using length_dropWhile_le [of is_hyphen r] by simp
next
  fix bef :: string and c r
  show "((rev (word_chunk (c # bef) r) @ c # bef, drop (length (word_chunk (c # bef) r)) r),
         (bef, c # r)) \<in> measure (\<lambda>(bef, rest). length rest)"
    by simp
qed

definition split_chunks :: "string \<Rightarrow> string list" where
  "split_chunks text = wordsep_split [] (munge_whitespace text)"

fun fill_line :: "nat \<Rightarrow> string list \<Rightarrow> int \<Rightarrow> string list \<Rightarrow> string list \<times> int \<times> string list" where
  \<comment> \<open>the inner loop of \<open>_wrap_chunks\<close>: chunks move to the current line while they fit.
      The chunks are kept in reading order; the code reverses the list and pops from
      its end.\<close>
  "fill_line width cur_line cur_len [] = (cur_line, cur_len, [])"
| "fill_line width cur_line cur_len (c # chunks) =
     (if cur_len + int (length c) \<le> int width
      then fill_line width (cur_line @ [c]) (cur_len + int (length c)) chunks
      else (cur_line, cur_len, c # chunks))"

definition rfind_hyphen :: "string \<Rightarrow> int \<Rightarrow> int" where
  \<comment> \<open>\<open>chunk.rfind('-', 0, e)\<close>: the last index of a hyphen in \<open>chunk[0:e]\<close>, or -1\<close>
  "rfind_hyphen chunk e =
     (case filter (\<lambda>i. is_hyphen (py_prefix e chunk ! i)) (rev [0..<length (py_prefix e chunk)]) of
        [] \<Rightarrow> - 1
      | i # _ \<Rightarrow> int i)"

definition handle_long_word :: "string \<Rightarrow> string list \<Rightarrow> string list \<Rightarrow> int \<Rightarrow> nat \<Rightarrow> string list \<times> string list" where
  \<comment> \<open>\<open>_handle_long_word\<close> with \<open>break_long_words\<close> and \<open>break_on_hyphens\<close> set; \<open>chunk\<close> is
      the next chunk \<open>reversed_chunks[-1]\<close> and \<open>chunks\<close> the ones after it. The result is
      the remaining chunks and the current line.\<close>
  "handle_long_word chunk chunks cur_line cur_len width =
     (let space_left = (if int width < 1 then 1 else int width - cur_len);
          hyphen = rfind_hyphen chunk space_left;
          end = (if int (length chunk) > space_left \<and> hyphen > 0
                    \<and> list_ex (\<lambda>c. \<not> is_hyphen c) (py_prefix hyphen chunk)
                 then hyphen + 1 else space_left)
      in (py_suffix end chunk # chunks, cur_line @ [py_prefix end chunk]))"

definition wrap_line :: "nat \<Rightarrow> string list \<Rightarrow> string list \<Rightarrow> string list \<times> string list" where
  \<comment> \<open>one pass of the outer loop of \<open>_wrap_chunks\<close>, entered with chunks left: the lines
      so far and the chunks, after one more line\<close>
  "wrap_line width lines chunks =
     (let chunks1 = (if strip (hd chunks) = [] \<and> lines \<noteq> [] then tl chunks else chunks);
          (cur_line, cur_len, chunks2) = fill_line width [] 0 chunks1;
          (chunks3, cur_line2) =
             (case chunks2 of
                [] \<Rightarrow> (chunks2, cur_line)
              | d # ds \<Rightarrow>
                  if length d > width then handle_long_word d ds cur_line cur_len width
                  else (chunks2, cur_line));
          cur_line3 = (if cur_line2 \<noteq> [] \<and> strip (last cur_line2) = []
                       then butlast cur_line2 else cur_line2)
      in (if cur_line3 \<noteq> [] then lines @ [concat cur_line3] else lines, chunks3))"

function wrap_loop :: "nat \<Rightarrow> string list \<Rightarrow> string list \<Rightarrow> string list" where
  \<comment> \<open>\<open>while chunks: ...\<close> of \<open>_wrap_chunks\<close>, which is entered with a positive width\<close>
  "wrap_loop width lines chunks =
     (if chunks = [] then lines
      else wrap_loop width (fst (wrap_line width lines chunks)) (snd (wrap_line width lines chunks)))"
  by pat_completeness auto
termination
proof (relation "measure (\<lambda>(width, lines, chunks). length (concat chunks) + length chunks)")
  show "wf (measure (\<lambda>(width, lines, chunks). length (concat chunks) + length chunks))"
    by simp
next
  fix width :: nat and lines chunks :: "string list"
  assume ne: "chunks \<noteq> []"
  let ?m = "\<lambda>cs :: string list. length (concat cs) + length cs"
  have fill: "?m (snd (snd (fill_line width cl n cs))) \<le> ?m cs" for cl n cs
  proof (induction cs arbitrary: cl n)
    case Nil
    show ?case by simp
  next
    case (Cons a cs)
    show ?case
      using Cons.IH [of "cl @ [a]" "n + int (length a)"] by auto
  qed
  have long: "?m (fst (handle_long_word d ds cl n width)) \<le> ?m (d # ds)" for d ds cl n
    by (simp add: handle_long_word_def Let_def py_suffix_def)
  have first_long: "?m (fst (handle_long_word d ds [] 0 width)) < ?m (d # ds)"
    if "length d > width" for d ds
  proof -
    have "0 < nat e \<Longrightarrow> length (py_suffix e d) < length d" for e
      using that by (simp add: py_suffix_def)
    then show ?thesis
      by (simp add: handle_long_word_def Let_def)
  qed
  let ?after = "\<lambda>cs1. case fill_line width [] 0 cs1 of
                    (cl, n, cs2) \<Rightarrow>
                      (case cs2 of
                         [] \<Rightarrow> []
                       | d # ds \<Rightarrow>
                           if length d > width then fst (handle_long_word d ds cl n width)
                           else cs2)"
  have snd_wrap: "snd (wrap_line width lines cs) =
                    ?after (if strip (hd cs) = [] \<and> lines \<noteq> [] then tl cs else cs)" for cs
  proof (cases "strip (hd cs) = [] \<and> lines \<noteq> []")
    case True
    obtain cl n cs2 where "fill_line width [] 0 (tl cs) = (cl, n, cs2)"
      by (cases "fill_line width [] 0 (tl cs)") auto
    then show ?thesis
      using True by (simp add: wrap_line_def Let_def split: list.split prod.split)
  next
    case False
    obtain cl n cs2 where "fill_line width [] 0 cs = (cl, n, cs2)"
      by (cases "fill_line width [] 0 cs") auto
    then show ?thesis
      using False by (auto simp add: wrap_line_def Let_def split: list.split prod.split)
  qed
  have rest: "?m (?after cs1) \<le> ?m cs1" for cs1
  proof -
    obtain cl n cs2 where fl: "fill_line width [] 0 cs1 = (cl, n, cs2)"
      by (cases "fill_line width [] 0 cs1") auto
    have m2: "?m cs2 \<le> ?m cs1"
      using fill [of "[]" 0 cs1] by (simp add: fl)
    show ?thesis
    proof (cases cs2)
      case Nil
      then show ?thesis
        using fl by simp
    next
      case (Cons d ds)
      then show ?thesis
        using fl m2 long [of d ds cl n] by simp
    qed
  qed
  obtain c cs' where cs: "chunks = c # cs'"
    using ne by (cases chunks) auto
  have last_step: "?m cs' < ?m chunks"
    by (simp add: cs)
  have "?m (snd (wrap_line width lines chunks)) < ?m chunks"
  proof (cases "strip c = [] \<and> lines \<noteq> []")
    case True
    then have "snd (wrap_line width lines chunks) = ?after cs'"
      by (simp add: snd_wrap cs)
    then have "?m (snd (wrap_line width lines chunks)) = ?m (?after cs')"
      by (simp only:)
    also have "\<dots> \<le> ?m cs'"
      by (rule rest)
    finally show ?thesis
      using last_step by simp
  next
    case False
    then have "snd (wrap_line width lines chunks) = ?after (c # cs')"
      by (auto simp add: snd_wrap cs)
    then have eq: "?m (snd (wrap_line width lines chunks)) = ?m (?after (c # cs'))"
      by (simp only:)
    show ?thesis
    proof (cases "length c \<le> width")
      case True
      obtain cl n cs2 where fl: "fill_line width [c] (int (length c)) cs' = (cl, n, cs2)"
        by (cases "fill_line width [c] (int (length c)) cs'") auto
      have m2: "?m cs2 \<le> ?m cs'"
        using fill [of "[c]" "int (length c)" cs'] by (simp add: fl)
      have "?after (c # cs') =
              (case cs2 of
                 [] \<Rightarrow> []
               | d # ds \<Rightarrow>
                   if length d > width then fst (handle_long_word d ds cl n width) else cs2)"
        using fl True by simp
      also have "?m \<dots> \<le> ?m cs2"
        using long [of _ _ cl n] by (cases cs2) simp_all
      finally show ?thesis
        using m2 last_step eq by simp
    next
      case long_c: False
      then have "?after (c # cs') = fst (handle_long_word c cs' [] 0 width)"
        by simp
      then have "?m (?after (c # cs')) = ?m (fst (handle_long_word c cs' [] 0 width))"
        by (simp only:)
      also have "\<dots> < ?m (c # cs')"
        using first_long [of c cs'] long_c by simp
      finally show ?thesis
        using eq by (simp add: cs)
    qed
  qed
  then show "((width, fst (wrap_line width lines chunks), snd (wrap_line width lines chunks)),
         (width, lines, chunks)) \<in> measure (\<lambda>(width, lines, chunks). length (concat chunks) + length chunks)"
    by (simp add: case_prod_beta)
qed

declare wrap_loop.simps [simp del]

definition wrap_chunks :: "int \<Rightarrow> string list \<Rightarrow> error + string list" where
  \<comment> \<open>\<open>_wrap_chunks\<close>: a width that is not positive is refused\<close>
  "wrap_chunks width chunks =
     (if width \<le> 0 then Inl ValueError else Inr (wrap_loop (nat width) [] chunks))"

definition wrap :: "string \<Rightarrow> int \<Rightarrow> error + string list" where
  \<comment> \<open>\<open>textwrap.wrap(text, width)\<close>\<close>
  "wrap text width = wrap_chunks width (split_chunks text)"

subsection \<open>Configuration tables\<close>

record theme =
  bg :: string
  box :: string
  line :: string
  text_colour :: string

definition THEMES :: "string \<rightharpoonup> theme" where
  "THEMES = map_of
     [(''Purple'', \<lparr>bg = ''white'', box = ''#E1BEE7'', line = ''#6A1B9A'', text_colour = ''black''\<rparr>),
      (''Blue'', \<lparr>bg = ''white'', box = ''#BBDEFB'', line = ''#1E88E5'', text_colour = ''black''\<rparr>),
      (''Dark'', \<lparr>bg = ''#1E1E1E'', box = ''#2D2D2D'', line = ''#B0B0B0'', text_colour = ''white''\<rparr>)]"

definition LEVEL_MAX_STEPS :: "string \<rightharpoonup> int" where
  "LEVEL_MAX_STEPS = map_of [(''Beginner'', 6), (''Intermediate'', 10), (''Advanced'', 14)]"

subsection \<open>Utilities\<close>

definition parse_months :: "string \<Rightarrow> error + int" where
  "parse_months duration =
     (case re_search_digits duration of
        Some g \<Rightarrow> py_int g
      | None \<Rightarrow> Inr 3)"

definition steps_from_months :: "int \<Rightarrow> int" where
  "steps_from_months months = max 3 (months * 2)"

definition compute_steps :: "int \<Rightarrow> string \<Rightarrow> error + int" where
  "compute_steps months level =
     (case LEVEL_MAX_STEPS level of
        None \<Rightarrow> Inl KeyError
      | Some m \<Rightarrow> Inr (min (steps_from_months months) m))"

subsection \<open>The roadmap text\<close>

text \<open>
  \<open>generate_roadmap\<close> sends a prompt to a chat-completion service and post-processes
  the reply. The service is outside the program: its reply text is the parameter
  \<open>content\<close> (\<open>response.choices[0].message.content\<close>). The prompt, which the result
  does not depend on, is not modelled.
\<close>

definition generate_roadmap :: "string \<Rightarrow> string \<Rightarrow> string \<Rightarrow> string \<Rightarrow> error + string list" where
  "generate_roadmap content domain level duration =
     (case parse_months duration of
        Inl e \<Rightarrow> Inl e
      | Inr months \<Rightarrow>
          (case compute_steps months level of
             Inl e \<Rightarrow> Inl e
           | Inr steps_count \<Rightarrow>
               Inr (py_prefix steps_count
                     (map strip (filter (\<lambda>s. strip s \<noteq> []) (split_newline content))))))"

subsection \<open>Drawing\<close>

text \<open>
  The imaging library is not part of the program. An image is modelled by its size, its
  background colour and the list of drawing commands applied to it, in the order of
  the calls; a drawing function takes the commands so far and returns them extended.
  The measured length of a text line, which sets the horizontal position of the text,
  comes from the font of the library and is not recorded: a text command keeps the
  vertical position and the line. The command of an arrow head keeps the segment it
  belongs to and the two back corners of the filled triangle, whose third vertex is the
  end of the segment.
\<close>

type_synonym point = "int \<times> int"

type_synonym rect = "int \<times> int \<times> int \<times> int"

datatype draw_cmd =
    RoundedRectangle rect int string string int
      \<comment> \<open>bounds, radius, fill, outline, stroke width\<close>
  | Text int string string
      \<comment> \<open>vertical position, line, fill\<close>
  | Line point point string int
      \<comment> \<open>start, end, fill, stroke width\<close>
  | ArrowHead point point "real \<times> real" "real \<times> real" string
      \<comment> \<open>start and end of the segment, the two back corners of the triangle, fill\<close>

record image =
  img_size :: "int \<times> int"
  img_bg :: string
  drawn :: "draw_cmd list"

definition atan2 :: "real \<Rightarrow> real \<Rightarrow> real" where
  \<comment> \<open>\<open>math.atan2(y, x)\<close>: the angle of the point \<open>(x, y)\<close>, between \<open>-pi\<close> and \<open>pi\<close>, and 0
      at the origin\<close>
  "atan2 y x =
     (if 0 < x then arctan (y / x)
      else if x < 0 then (if 0 \<le> y then arctan (y / x) + pi else arctan (y / x) - pi)
      else if 0 < y then pi / 2
      else if y < 0 then - pi / 2
      else 0)"

definition draw_arrow :: "draw_cmd list \<Rightarrow> point \<Rightarrow> point \<Rightarrow> string \<Rightarrow> draw_cmd list" where
  "draw_arrow draw start end colour =
     (let dx = real_of_int (fst end - fst start);
          dy = real_of_int (snd end - snd start);
          angle = atan2 dy dx;
          hl = 14;
          hw = 7;
          p1 = (real_of_int (fst end) - hl * cos angle + hw * sin angle,
                real_of_int (snd end) - hl * sin angle - hw * cos angle);
          p2 = (real_of_int (fst end) - hl * cos angle - hw * sin angle,
                real_of_int (snd end) - hl * sin angle + hw * cos angle)
      in draw @ [Line start end colour 3, ArrowHead start end p1 p2 colour])"

fun text_loop :: "draw_cmd list \<Rightarrow> int \<Rightarrow> string \<Rightarrow> string list \<Rightarrow> draw_cmd list" where
  \<comment> \<open>\<open>for line in wrapped: ...\<close> of \<open>draw_box\<close>\<close>
  "text_loop draw ty colour [] = draw"
| "text_loop draw ty colour (l # wrapped) = text_loop (draw @ [Text ty l colour]) (ty + 18) colour wrapped"

definition rounded_rectangle :: "draw_cmd list \<Rightarrow> rect \<Rightarrow> int \<Rightarrow> string \<Rightarrow> string \<Rightarrow> int \<Rightarrow> error + draw_cmd list" where
  \<comment> \<open>\<open>draw.rounded_rectangle(xy, radius, fill, outline, width)\<close>: the library refuses
      bounds whose right edge is left of the left edge, or whose lower edge is above
      the upper edge\<close>
  "rounded_rectangle draw xy radius fill outline width =
     (case xy of
        (x0, y0, x1, y1) \<Rightarrow>
          if x1 < x0 then Inl ValueError
          else if y1 < y0 then Inl ValueError
          else Inr (draw @ [RoundedRectangle xy radius fill outline width]))"

definition draw_box :: "draw_cmd list \<Rightarrow> int \<Rightarrow> int \<Rightarrow> int \<Rightarrow> string \<Rightarrow> theme \<Rightarrow> error + (draw_cmd list \<times> rect)" where
  "draw_box draw cx y w text theme =
     (case wrap text 38 of
        Inl e \<Rightarrow> Inl e
      | Inr wrapped \<Rightarrow>
          (let h = 34 + int (length wrapped) * 18;
               x = cx - w div 2
           in case rounded_rectangle draw (x, y, x + w, y + h) 20 (box theme) (line theme) 3 of
                Inl e \<Rightarrow> Inl e
              | Inr draw1 \<Rightarrow>
                  Inr (text_loop draw1 (y + 12) (text_colour theme) wrapped, (x, y, x + w, y + h))))"

subsection \<open>The roadmap image\<close>

definition item :: "'a list \<Rightarrow> nat \<Rightarrow> error + 'a" where
  \<comment> \<open>\<open>xs[i]\<close> for an index that is not negative\<close>
  "item xs i = (if i < length xs then Inr (xs ! i) else Inl IndexError)"

definition py_range :: "int \<Rightarrow> nat list" where
  \<comment> \<open>\<open>range(n)\<close>, empty when \<open>n\<close> is not positive\<close>
  "py_range n = [0..<nat n]"

fun height_loop :: "int \<Rightarrow> int \<Rightarrow> string list \<Rightarrow> error + int" where
  \<comment> \<open>the first loop of \<open>draw_roadmap\<close>: the gap, the height so far, the steps left\<close>
  "height_loop gap height [] = Inr height"
| "height_loop gap height (s # steps) =
     (case wrap s 38 of
        Inl e \<Rightarrow> Inl e
      | Inr wrapped \<Rightarrow> height_loop gap (height + (34 + int (length wrapped) * 18 + gap)) steps)"

fun box_loop :: "int \<Rightarrow> int \<Rightarrow> int \<Rightarrow> theme \<Rightarrow> draw_cmd list \<Rightarrow> int \<Rightarrow> rect list \<Rightarrow> string list
                   \<Rightarrow> error + (draw_cmd list \<times> int \<times> rect list)" where
  \<comment> \<open>the second loop: the drawing, the cursor \<open>y\<close> and the boxes so far, the steps left\<close>
  "box_loop cx gap bw theme draw y boxes [] = Inr (draw, y, boxes)"
| "box_loop cx gap bw theme draw y boxes (s # steps) =
     (case draw_box draw cx y bw s theme of
        Inl e \<Rightarrow> Inl e
      | Inr (draw', bx) \<Rightarrow>
          box_loop cx gap bw theme draw' (snd (snd (snd bx)) + gap) (boxes @ [bx]) steps)"

fun arrow_loop :: "draw_cmd list \<Rightarrow> rect list \<Rightarrow> string \<Rightarrow> nat list \<Rightarrow> error + draw_cmd list" where
  \<comment> \<open>the third loop, over the indices \<open>range(len(boxes) - 1)\<close>\<close>
  "arrow_loop draw boxes colour [] = Inr draw"
| "arrow_loop draw boxes colour (i # ixs) =
     (case item boxes i of
        Inl e \<Rightarrow> Inl e
      | Inr (x0, y0, x1, y1) \<Rightarrow>
          (case item boxes (i + 1) of
             Inl e \<Rightarrow> Inl e
           | Inr (x0', y0', x1', y1') \<Rightarrow>
               arrow_loop (draw_arrow draw ((x0 + x1) div 2, y1 + 6) ((x0' + x1') div 2, y0' - 6) colour)
                 boxes colour ixs))"

definition draw_roadmap :: "string list \<Rightarrow> string \<Rightarrow> error + (string \<times> image)" where
  \<comment> \<open>the result is the returned path together with the image saved there\<close>
  "draw_roadmap steps theme_name =
     (case THEMES theme_name of
        None \<Rightarrow> Inl KeyError
      | Some theme \<Rightarrow>
          (let cx = 500; top = 60; gap = 35; bw = 620
           in case height_loop gap (top + 60) steps of
                Inl e \<Rightarrow> Inl e
              | Inr height \<Rightarrow>
                  (case box_loop cx gap bw theme [] top [] steps of
                     Inl e \<Rightarrow> Inl e
                   | Inr (draw, y, boxes) \<Rightarrow>
                       (case arrow_loop draw boxes (line theme) (py_range (int (length boxes) - 1)) of
                          Inl e \<Rightarrow> Inl e
                        | Inr draw' \<Rightarrow>
                            Inr (''/tmp/roadmap.png'',
                                 \<lparr>img_size = (1000, height), img_bg = bg theme, drawn = draw'\<rparr>)))))"

subsection \<open>Notions used in the statements\<close>

definition decimal_value :: "string \<Rightarrow> int" where
  \<comment> \<open>the number a run of decimal digits denotes: digit \<open>i\<close> of \<open>n\<close> counts \<open>10 ^ (n - 1 - i)\<close>\<close>
  "decimal_value ds = (\<Sum>i < length ds. digit_val (ds ! i) * 10 ^ (length ds - 1 - i))"

definition wrapped_lines :: "string \<Rightarrow> string list" where
  \<comment> \<open>the lines of a step wrapped at width 38\<close>
  "wrapped_lines s = wrap_loop 38 [] (split_chunks s)"

definition box_height :: "string \<Rightarrow> int" where
  \<comment> \<open>the height of the box of a step: 34 and 18 for each wrapped line\<close>
  "box_height s = 34 + 18 * int (length (wrapped_lines s))"

definition box_top :: "string list \<Rightarrow> nat \<Rightarrow> int" where
  \<comment> \<open>the top of box \<open>i\<close>: the top margin, and a box height and a gap for each earlier step\<close>
  "box_top steps i = 60 + (\<Sum>s \<leftarrow> take i steps. box_height s + 35)"

definition non_space :: "string \<Rightarrow> string" where
  \<comment> \<open>the characters of a text that are not whitespace, in order\<close>
  "non_space s = filter (\<lambda>c. \<not> py_isspace c) s"

fun boxes_of :: "draw_cmd list \<Rightarrow> rect list" where
  \<comment> \<open>the rounded rectangles of a drawing, in drawing order\<close>
  "boxes_of [] = []"
| "boxes_of (RoundedRectangle r rad f ol w # cmds) = r # boxes_of cmds"
| "boxes_of (_ # cmds) = boxes_of cmds"

fun arrows_of :: "draw_cmd list \<Rightarrow> (point \<times> point) list" where
  \<comment> \<open>the segments of the arrows of a drawing, in drawing order\<close>
  "arrows_of [] = []"
| "arrows_of (Line p q c w # cmds) = (p, q) # arrows_of cmds"
| "arrows_of (_ # cmds) = arrows_of cmds"

fun heads_of :: "draw_cmd list \<Rightarrow> (point \<times> point) list" where
  \<comment> \<open>the segments of the arrow heads of a drawing, in drawing order\<close>
  "heads_of [] = []"
| "heads_of (ArrowHead p q p1 p2 c # cmds) = (p, q) # heads_of cmds"
| "heads_of (_ # cmds) = heads_of cmds"

fun texts_of :: "draw_cmd list \<Rightarrow> string list" where
  \<comment> \<open>the text lines of a drawing, in drawing order\<close>
  "texts_of [] = []"
| "texts_of (Text ty l c # cmds) = l # texts_of cmds"
| "texts_of (_ # cmds) = texts_of cmds"

definition canvas_height :: "error + (string \<times> image) \<Rightarrow> int option" where
  \<comment> \<open>the height of the rendered image, when there is one\<close>
  "canvas_height res = (case res of Inl e \<Rightarrow> None | Inr (path, img) \<Rightarrow> Some (snd (img_size img)))"

definition final_cursor :: "error + (draw_cmd list \<times> int \<times> rect list) \<Rightarrow> int option" where
  \<comment> \<open>the cursor \<open>y\<close> after the placement loop, when it ends\<close>
  "final_cursor res = (case res of Inl e \<Rightarrow> None | Inr (draw, y, boxes) \<Rightarrow> Some y)"

definition rect_left :: "rect \<Rightarrow> int" where
  "rect_left r = fst r"

definition rect_top :: "rect \<Rightarrow> int" where
  "rect_top r = fst (snd r)"

definition rect_right :: "rect \<Rightarrow> int" where
  "rect_right r = fst (snd (snd r))"

definition rect_bottom :: "rect \<Rightarrow> int" where
  "rect_bottom r = snd (snd (snd r))"

fun layout :: "int \<Rightarrow> string list \<Rightarrow> rect list" where
  \<comment> \<open>the boxes of the steps stacked from \<open>y\<close> on, each 620 wide around the axis at 500
      and followed by a gap of 35\<close>
  "layout y [] = []"
| "layout y (s # steps) = (190, y, 810, y + box_height s) # layout (y + box_height s + 35) steps"

definition arrow_seg :: "rect list \<Rightarrow> nat \<Rightarrow> point \<times> point" where
  \<comment> \<open>the segment from the bottom centre of box \<open>i\<close>, 6 lower, to the top centre of the
      next box, 6 higher\<close>
  "arrow_seg boxes i =
     (((rect_left (boxes ! i) + rect_right (boxes ! i)) div 2, rect_bottom (boxes ! i) + 6),
      ((rect_left (boxes ! Suc i) + rect_right (boxes ! Suc i)) div 2, rect_top (boxes ! Suc i) - 6))"

definition break_pos :: "string list \<Rightarrow> nat \<Rightarrow> nat" where
  \<comment> \<open>where the first \<open>i\<close> strings end, counted in characters that are not whitespace\<close>
  "break_pos ls i = length (non_space (concat (take i ls)))"


subsection \<open>Notions used in the proofs about wrapping\<close>




section \<open>Properties\<close>

subsection \<open>Durations and step counts\<close>

lemma foldl_decimal:
  "foldl (\<lambda>a c. 10 * a + digit_val c) a ds = a * 10 ^ length ds + decimal_value ds"
proof (induction ds rule: rev_induct)
  case Nil
  show ?case by (simp add: decimal_value_def)
next
  case (snoc d ds)
  have "(\<Sum>i < length ds. digit_val ((ds @ [d]) ! i) * 10 ^ (length ds - i))
          = (\<Sum>i < length ds. 10 * (digit_val (ds ! i) * 10 ^ (length ds - 1 - i)))"
  proof (rule sum.cong)
    fix i assume "i \<in> {..<length ds}"
    then have i: "i < length ds" by simp
    then have "length ds - i = Suc (length ds - 1 - i)" by simp
    then show "digit_val ((ds @ [d]) ! i) * 10 ^ (length ds - i)
                 = 10 * (digit_val (ds ! i) * 10 ^ (length ds - 1 - i))"
      using i by (simp add: nth_append)
  qed simp
  then have "decimal_value (ds @ [d]) = 10 * decimal_value ds + digit_val d"
    by (simp add: decimal_value_def sum_distrib_left)
  then show ?case
    using snoc.IH by (simp add: algebra_simps)
qed

lemma py_int_digits:
  assumes "ds \<noteq> []" and "\<forall>c \<in> set ds. is_digit c"
  shows "py_int ds = (if length ds \<le> 4300 then Inr (decimal_value ds) else Inl ValueError)"
  using assms foldl_decimal [of 0 ds] by (simp add: py_int_def list_all_iff int_max_str_digits_def)

lemma re_search_digits_run:
  assumes "\<forall>c \<in> set pre. \<not> is_digit c" and "ds \<noteq> []" and "\<forall>c \<in> set ds. is_digit c"
    and "post = [] \<or> \<not> is_digit (hd post)"
  shows "re_search_digits (pre @ ds @ post) = Some ds"
proof -
  obtain d ds' where ds: "ds = d # ds'"
    using assms(2) by (cases ds) auto
  have "dropWhile (\<lambda>c. \<not> is_digit c) (pre @ ds @ post) = ds @ post"
    using assms(1,3) by (simp add: ds dropWhile_append3)
  moreover have "takeWhile is_digit (ds @ post) = ds"
  proof (cases post)
    case Nil
    then show ?thesis using assms(3) by simp
  next
    case (Cons p ps)
    then have "\<not> is_digit p" using assms(4) by simp
    then show ?thesis using assms(3) Cons by (simp add: takeWhile_tail)
  qed
  ultimately show ?thesis
    by (simp add: re_search_digits_def ds)
qed

lemma re_search_digits_none:
  assumes "\<forall>c \<in> set s. \<not> is_digit c"
  shows "re_search_digits s = None"
proof -
  have "dropWhile (\<lambda>c. \<not> is_digit c) s = []"
    using assms by simp
  then show ?thesis
    unfolding re_search_digits_def by (simp only: list.case)
qed

lemma re_search_digits_some:
  assumes "re_search_digits s = Some g"
  shows "g \<noteq> [] \<and> (\<forall>c \<in> set g. is_digit c) \<and> length g \<le> length s"
proof -
  obtain d r where dr: "dropWhile (\<lambda>c. \<not> is_digit c) s = d # r" and g: "g = takeWhile is_digit (d # r)"
    using assms by (auto simp add: re_search_digits_def split: list.splits)
  have "is_digit d"
    using dr hd_dropWhile [of "\<lambda>c. \<not> is_digit c" s] by simp
  then have "g \<noteq> []"
    by (simp add: g)
  moreover have "\<forall>c \<in> set g. is_digit c"
    unfolding g by (metis set_takeWhileD)
  moreover have "length g \<le> length (d # r)"
    unfolding g by (rule length_takeWhile_le)
  then have "length g \<le> length s"
    using length_dropWhile_le [of "\<lambda>c. \<not> is_digit c" s] by (simp add: dr)
  ultimately show ?thesis by simp
qed

lemma parse_months_short:
  assumes "length duration \<le> 4300"
  shows "\<exists>n. parse_months duration = Inr n"
proof (cases "re_search_digits duration")
  case None
  then show ?thesis by (simp add: parse_months_def)
next
  case (Some g)
  then show ?thesis
    using re_search_digits_some [OF Some] py_int_digits [of g] assms by (simp add: parse_months_def)
qed

lemma parse_months_error:
  assumes "parse_months duration = Inl e"
  shows "e = ValueError"
  using assms by (simp add: parse_months_def py_int_def split: option.splits if_splits)

lemma length_py_prefix: "0 \<le> k \<Longrightarrow> int (length (py_prefix k xs)) \<le> k"
  by (auto simp add: py_prefix_def min_def)

text \<open>
  Claim C10, as stated, fails: \<open>parse_months\<close> can raise. The conversion \<open>int\<close> refuses a
  literal of more than 4300 digits, so a duration that starts with a run of 4301 digits
  raises ValueError and no number is returned.
\<close>

theorem parse_months_counterexample:
  "parse_months (replicate 4301 (CHR ''7'') @ '' months'') = Inl ValueError"
proof -
  have "re_search_digits ([] @ replicate 4301 (CHR ''7'') @ '' months'')
          = Some (replicate 4301 (CHR ''7''))"
    by (rule re_search_digits_run) (simp_all add: is_digit_def)
  then have "parse_months (replicate 4301 (CHR ''7'') @ '' months'')
               = py_int (replicate 4301 (CHR ''7''))"
    by (simp add: parse_months_def)
  also have "\<dots> = Inl ValueError"
    by (simp add: py_int_def int_max_str_digits_def)
  finally show ?thesis .
qed

text \<open>
  Claim C10, amended. When the duration has no digit, \<open>parse_months\<close> returns the default
  3. Otherwise the duration is some digit-free \<open>pre\<close>, then a run of digits \<open>ds\<close>, then a
  \<open>post\<close> that does not start with a digit: when the run has at most 4300 digits the
  result is the number these digits denote, and when it has more the call raises
  ValueError. ValueError is the only error, and a duration of at most 4300 characters
  raises nothing.
\<close>

theorem parse_months_first_digit_run:
  "((\<forall>c \<in> set duration. \<not> is_digit c) \<longrightarrow> parse_months duration = Inr 3) \<and>
   (\<forall>pre ds post.
      duration = pre @ ds @ post \<and> (\<forall>c \<in> set pre. \<not> is_digit c) \<and>
      ds \<noteq> [] \<and> (\<forall>c \<in> set ds. is_digit c) \<and> (post = [] \<or> \<not> is_digit (hd post))
      \<longrightarrow> parse_months duration
            = (if length ds \<le> 4300 then Inr (decimal_value ds) else Inl ValueError)) \<and>
   (\<forall>e. parse_months duration = Inl e \<longrightarrow> e = ValueError) \<and>
   (length duration \<le> 4300 \<longrightarrow> (\<exists>n. parse_months duration = Inr n))"
proof (intro conjI allI impI)
  assume "\<forall>c \<in> set duration. \<not> is_digit c"
  then show "parse_months duration = Inr 3"
    by (simp add: parse_months_def re_search_digits_none)
next
  fix pre ds post
  assume h: "duration = pre @ ds @ post \<and> (\<forall>c \<in> set pre. \<not> is_digit c) \<and>
      ds \<noteq> [] \<and> (\<forall>c \<in> set ds. is_digit c) \<and> (post = [] \<or> \<not> is_digit (hd post))"
  then have "re_search_digits duration = Some ds"
    using re_search_digits_run [of pre ds post] by simp
  then have "parse_months duration = py_int ds"
    by (simp add: parse_months_def)
  also have "\<dots> = (if length ds \<le> 4300 then Inr (decimal_value ds) else Inl ValueError)"
    using h by (intro py_int_digits) simp_all
  finally show "parse_months duration
      = (if length ds \<le> 4300 then Inr (decimal_value ds) else Inl ValueError)" .
next
  fix e assume "parse_months duration = Inl e"
  then show "e = ValueError"
    by (rule parse_months_error)
next
  assume "length duration \<le> 4300"
  then show "\<exists>n. parse_months duration = Inr n"
    by (rule parse_months_short)
qed

theorem parse_months_first_digit_run_witness:
  "list_all (\<lambda>c. \<not> is_digit c) ''a while'' \<and> parse_months ''a while'' = Inr 3 \<and>
   ''about 12 months'' = ''about '' @ ''12'' @ '' months'' \<and>
   list_all (\<lambda>c. \<not> is_digit c) ''about '' \<and> list_all is_digit ''12'' \<and>
   \<not> is_digit (hd '' months'') \<and> length ''12'' \<le> 4300 \<and>
   parse_months ''about 12 months'' = Inr (decimal_value ''12'') \<and> decimal_value ''12'' = 12 \<and>
   list_all is_digit (replicate 4301 (CHR ''7'')) \<and>
   parse_months (''in '' @ replicate 4301 (CHR ''7'') @ '' months'') = Inl ValueError"
proof -
  have none: "\<forall>c \<in> set ''a while''. \<not> is_digit c"
    by (simp add: is_digit_def)
  have run: "''about 12 months'' = ''about '' @ ''12'' @ '' months'' \<and>
      (\<forall>c \<in> set ''about ''. \<not> is_digit c) \<and> ''12'' \<noteq> [] \<and>
      (\<forall>c \<in> set ''12''. is_digit c) \<and> ('' months'' = [] \<or> \<not> is_digit (hd '' months''))"
    by (simp add: is_digit_def)
  have long: "''in '' @ replicate 4301 (CHR ''7'') @ '' months''
        = ''in '' @ replicate 4301 (CHR ''7'') @ '' months'' \<and>
      (\<forall>c \<in> set ''in ''. \<not> is_digit c) \<and> replicate 4301 (CHR ''7'') \<noteq> [] \<and>
      (\<forall>c \<in> set (replicate 4301 (CHR ''7'')). is_digit c) \<and>
      ('' months'' = [] \<or> \<not> is_digit (hd '' months''))"
    by (simp add: is_digit_def)
  have dv: "decimal_value ''12'' = 12"
    by (simp add: decimal_value_def digit_val_def lessThan_Suc)
  have default: "parse_months ''a while'' = Inr 3"
    by (rule parse_months_first_digit_run
          [of "''a while''", THEN conjunct1, THEN mp, OF none])
  have "parse_months ''about 12 months''
          = (if length ''12'' \<le> 4300 then Inr (decimal_value ''12'') else Inl ValueError)"
    by (rule parse_months_first_digit_run
          [of "''about 12 months''", THEN conjunct2, THEN conjunct1, rule_format, OF run])
  then have months: "parse_months ''about 12 months'' = Inr (decimal_value ''12'')"
    by simp
  have "parse_months (''in '' @ replicate 4301 (CHR ''7'') @ '' months'')
          = (if length (replicate 4301 (CHR ''7'')) \<le> 4300
             then Inr (decimal_value (replicate 4301 (CHR ''7''))) else Inl ValueError)"
    by (rule parse_months_first_digit_run
          [of "''in '' @ replicate 4301 (CHR ''7'') @ '' months''", THEN conjunct2, THEN conjunct1,
            rule_format, OF long])
  then have refused: "parse_months (''in '' @ replicate 4301 (CHR ''7'') @ '' months'') = Inl ValueError"
    by simp
  have digits: "list_all is_digit (replicate 4301 (CHR ''7''))"
    by (simp add: list_all_iff is_digit_def)
  show ?thesis
    using none run dv default months refused digits by (intro conjI) (simp_all add: list_all_iff)
qed

text \<open>
  Claim C8. For a level among Beginner, Intermediate and Advanced, the table gives a
  maximum \<open>cap\<close> and \<open>compute_steps months level\<close> is \<open>min (max 3 (2 * months)) cap\<close>.
  For every duration and every reply of the service, when the duration parses to \<open>m\<close>
  months \<open>generate_roadmap\<close> returns a list of at most \<open>min (max 3 (2 * m)) cap\<close> steps; a
  duration of at most 4300 characters does parse; and when the duration does not parse
  (its digit run is too long for \<open>int\<close>) there are no parsed months and
  \<open>generate_roadmap\<close> raises the error of \<open>parse_months\<close>.
\<close>

theorem steps_capped:
  assumes "level \<in> {''Beginner'', ''Intermediate'', ''Advanced''}"
  shows "\<exists>cap. LEVEL_MAX_STEPS level = Some cap \<and>
           compute_steps months level = Inr (min (max 3 (2 * months)) cap) \<and>
           (\<forall>m. parse_months duration = Inr m \<longrightarrow>
              (\<exists>steps. generate_roadmap content domain level duration = Inr steps \<and>
                 int (length steps) \<le> min (max 3 (2 * m)) cap)) \<and>
           (length duration \<le> 4300 \<longrightarrow> (\<exists>m. parse_months duration = Inr m)) \<and>
           (\<forall>e. parse_months duration = Inl e \<longrightarrow>
              generate_roadmap content domain level duration = Inl e)"
proof -
  obtain cap where cap: "LEVEL_MAX_STEPS level = Some cap" and pos: "0 < cap"
    using assms by (auto simp add: LEVEL_MAX_STEPS_def)
  have cs: "compute_steps k level = Inr (min (max 3 (2 * k)) cap)" for k
    by (simp add: compute_steps_def cap steps_from_months_def mult.commute)
  have bound: "int (length (py_prefix (min (max 3 (2 * m)) cap) xs)) \<le> min (max 3 (2 * m)) cap"
    for xs :: "string list" and m
  proof (rule length_py_prefix)
    show "0 \<le> min (max 3 (2 * m)) cap"
      using pos by simp
  qed
  have ok: "\<forall>m. parse_months duration = Inr m \<longrightarrow>
              (\<exists>steps. generate_roadmap content domain level duration = Inr steps \<and>
                 int (length steps) \<le> min (max 3 (2 * m)) cap)"
    using cs bound by (simp add: generate_roadmap_def)
  have short: "length duration \<le> 4300 \<longrightarrow> (\<exists>m. parse_months duration = Inr m)"
    using parse_months_short by blast
  have err: "\<forall>e. parse_months duration = Inl e \<longrightarrow>
              generate_roadmap content domain level duration = Inl e"
    by (simp add: generate_roadmap_def)
  show ?thesis
    using cap cs ok short err by blast
qed

theorem steps_capped_witness:
  "''Beginner'' \<in> {''Beginner'', ''Intermediate'', ''Advanced''} \<and>
   LEVEL_MAX_STEPS ''Beginner'' = Some 6 \<and>
   compute_steps 1 ''Beginner'' = Inr 3 \<and> compute_steps 5 ''Beginner'' = Inr 6 \<and>
   parse_months ''1 month'' = Inr 1 \<and>
   (\<exists>steps. generate_roadmap ''a\<newline>b\<newline>c\<newline>d'' ''Machine Learning'' ''Beginner'' ''1 month'' = Inr steps \<and>
      int (length steps) \<le> 3)"
proof -
  have lv: "''Beginner'' \<in> {''Beginner'', ''Intermediate'', ''Advanced''}"
    by simp
  have pm: "parse_months ''1 month'' = Inr 1"
    by (simp add: parse_months_def re_search_digits_def is_digit_def py_int_def digit_val_def
        int_max_str_digits_def)
  have tb: "LEVEL_MAX_STEPS ''Beginner'' = Some 6"
    by (simp add: LEVEL_MAX_STEPS_def)
  from steps_capped [OF lv, of 1 "''1 month''" "''a\<newline>b\<newline>c\<newline>d''" "''Machine Learning''"]
  have one: "compute_steps 1 ''Beginner'' = Inr 3"
    and ret: "\<exists>steps. generate_roadmap ''a\<newline>b\<newline>c\<newline>d'' ''Machine Learning'' ''Beginner'' ''1 month'' = Inr steps \<and>
      int (length steps) \<le> 3"
    using pm tb by auto
  from steps_capped [OF lv, of 5 "''1 month''" "''a\<newline>b\<newline>c\<newline>d''" "''Machine Learning''"]
  have five: "compute_steps 5 ''Beginner'' = Inr 6"
    using tb by auto
  show ?thesis
    using lv tb one five pm ret by (intro conjI)
qed

subsection \<open>Themes and the empty roadmap\<close>

text \<open>
  Claim C9. For a theme key that is none of Purple, Blue and Dark, \<open>draw_roadmap\<close>
  raises the lookup error KeyError, whatever the steps: no image is made and no theme
  is used in its place.
\<close>

theorem unknown_theme_fails:
  assumes "theme_name \<notin> {''Purple'', ''Blue'', ''Dark''}"
  shows "draw_roadmap steps theme_name = Inl KeyError"
proof -
  have "THEMES theme_name = None"
    using assms by (simp add: THEMES_def)
  then show ?thesis
    by (simp add: draw_roadmap_def)
qed

theorem unknown_theme_fails_witness:
  "''Green'' \<notin> {''Purple'', ''Blue'', ''Dark''} \<and>
   draw_roadmap [''Learn variables''] ''Green'' = Inl KeyError"
proof -
  have h: "''Green'' \<notin> {''Purple'', ''Blue'', ''Dark''}"
    by simp
  show ?thesis
    using h unknown_theme_fails [OF h, of "[''Learn variables'']"] by simp
qed

text \<open>
  Claim C5. With a theme of the table, rendering the empty list of steps raises
  nothing: the result is the output path and an image of height 120, the top and the
  bottom margin, which is positive, with no drawing command in it, so no box and no
  arrow.
\<close>

theorem empty_roadmap:
  assumes "theme_name \<in> {''Purple'', ''Blue'', ''Dark''}"
  shows "\<exists>img. draw_roadmap [] theme_name = Inr (''/tmp/roadmap.png'', img) \<and>
           img_size img = (1000, 60 + 60) \<and> 0 < snd (img_size img) \<and> drawn img = [] \<and>
           length (boxes_of (drawn img)) = 0 \<and> length (arrows_of (drawn img)) = 0 \<and>
           length (heads_of (drawn img)) = 0"
proof -
  obtain theme where "THEMES theme_name = Some theme"
    using assms by (auto simp add: THEMES_def)
  then show ?thesis
    by (simp add: draw_roadmap_def py_range_def)
qed

theorem empty_roadmap_witness:
  "''Dark'' \<in> {''Purple'', ''Blue'', ''Dark''} \<and>
   draw_roadmap [] ''Dark''
     = Inr (''/tmp/roadmap.png'', \<lparr>img_size = (1000, 120), img_bg = ''#1E1E1E'', drawn = []\<rparr>)"
proof -
  have h: "''Dark'' \<in> {''Purple'', ''Blue'', ''Dark''}"
    by simp
  from empty_roadmap [OF h] obtain img where
    "draw_roadmap [] ''Dark'' = Inr (''/tmp/roadmap.png'', img)"
    by blast
  moreover have "draw_roadmap [] ''Dark''
     = Inr (''/tmp/roadmap.png'', \<lparr>img_size = (1000, 120), img_bg = ''#1E1E1E'', drawn = []\<rparr>)"
    by (simp add: draw_roadmap_def THEMES_def py_range_def)
  ultimately show ?thesis
    using h by simp
qed

subsection \<open>Boxes\<close>

lemma wrap_38: "wrap s 38 = Inr (wrapped_lines s)"
  by (simp add: wrap_def wrap_chunks_def wrapped_lines_def)

lemma text_loop_eq:
  "text_loop draw ty colour ls
     = draw @ map (\<lambda>i. Text (ty + 18 * int i) (ls ! i) colour) [0..<length ls]"
proof (induction ls arbitrary: draw ty)
  case Nil
  show ?case by simp
next
  case (Cons l ls)
  have "map (\<lambda>i. Text (ty + 18 * int i) ((l # ls) ! i) colour) [0..<Suc (length ls)]
          = Text ty l colour # map (\<lambda>i. Text (ty + 18 + 18 * int i) (ls ! i) colour) [0..<length ls]"
    by (simp add: map_upt_Suc del: upt_Suc)
  then show ?case
    using Cons.IH [of "draw @ [Text ty l colour]" "ty + 18"] by simp
qed

lemma draw_box_eq:
  assumes "0 \<le> w"
  shows "draw_box draw cx y w s theme =
     Inr (draw @ RoundedRectangle (cx - w div 2, y, cx - w div 2 + w, y + box_height s) 20
                   (box theme) (line theme) 3
               # map (\<lambda>i. Text (y + 12 + 18 * int i) (wrapped_lines s ! i) (text_colour theme))
                   [0..<length (wrapped_lines s)],
          (cx - w div 2, y, cx - w div 2 + w, y + box_height s))"
  using assms
  by (simp add: draw_box_def wrap_38 Let_def rounded_rectangle_def text_loop_eq box_height_def
      mult.commute)

lemma draw_box_negative:
  assumes "w < 0"
  shows "draw_box draw cx y w s theme = Inl ValueError"
  using assms by (simp add: draw_box_def wrap_38 Let_def rounded_rectangle_def)

lemma boxes_of_append: "boxes_of (a @ b) = boxes_of a @ boxes_of b"
  by (induction a rule: boxes_of.induct) simp_all

lemma arrows_of_append: "arrows_of (a @ b) = arrows_of a @ arrows_of b"
  by (induction a rule: arrows_of.induct) simp_all

lemma heads_of_append: "heads_of (a @ b) = heads_of a @ heads_of b"
  by (induction a rule: heads_of.induct) simp_all

lemma texts_of_append: "texts_of (a @ b) = texts_of a @ texts_of b"
  by (induction a rule: texts_of.induct) simp_all

lemma observe_texts:
  "boxes_of (map (\<lambda>i. Text (f i) (g i) c) ixs) = [] \<and>
   arrows_of (map (\<lambda>i. Text (f i) (g i) c) ixs) = [] \<and>
   heads_of (map (\<lambda>i. Text (f i) (g i) c) ixs) = [] \<and>
   texts_of (map (\<lambda>i. Text (f i) (g i) c) ixs) = map g ixs"
  by (induction ixs) simp_all

lemma box_loop_eq:
  "\<exists>draw'. box_loop 500 35 620 theme draw y boxes steps
              = Inr (draw', y + (\<Sum>s \<leftarrow> steps. box_height s + 35), boxes @ layout y steps) \<and>
            boxes_of draw' = boxes_of draw @ layout y steps \<and>
            arrows_of draw' = arrows_of draw \<and>
            heads_of draw' = heads_of draw \<and>
            texts_of draw' = texts_of draw @ concat (map wrapped_lines steps)"
proof (induction steps arbitrary: draw y boxes)
  case Nil
  show ?case by simp
next
  case (Cons s steps)
  define draw1 where "draw1 = draw @ RoundedRectangle (190, y, 810, y + box_height s) 20
                   (box theme) (line theme) 3
               # map (\<lambda>i. Text (y + 12 + 18 * int i) (wrapped_lines s ! i) (text_colour theme))
                   [0..<length (wrapped_lines s)]"
  have db: "draw_box draw 500 y 620 s theme = Inr (draw1, (190, y, 810, y + box_height s))"
    by (simp add: draw_box_eq draw1_def)
  have obs: "boxes_of draw1 = boxes_of draw @ [(190, y, 810, y + box_height s)]"
    "arrows_of draw1 = arrows_of draw" "heads_of draw1 = heads_of draw"
    "texts_of draw1 = texts_of draw @ wrapped_lines s"
    by (simp_all add: draw1_def boxes_of_append arrows_of_append heads_of_append
        texts_of_append observe_texts map_nth)
  from Cons.IH [of draw1 "y + box_height s + 35" "boxes @ [(190, y, 810, y + box_height s)]"]
  obtain draw' where
    "box_loop 500 35 620 theme draw1 (y + box_height s + 35) (boxes @ [(190, y, 810, y + box_height s)]) steps
       = Inr (draw', y + box_height s + 35 + (\<Sum>s \<leftarrow> steps. box_height s + 35),
              (boxes @ [(190, y, 810, y + box_height s)]) @ layout (y + box_height s + 35) steps)"
    "boxes_of draw' = boxes_of draw1 @ layout (y + box_height s + 35) steps"
    "arrows_of draw' = arrows_of draw1" "heads_of draw' = heads_of draw1"
    "texts_of draw' = texts_of draw1 @ concat (map wrapped_lines steps)"
    by blast
  then show ?case
    using db obs by (simp add: algebra_simps)
qed

lemma height_loop_eq:
  "height_loop 35 h steps = Inr (h + (\<Sum>s \<leftarrow> steps. box_height s + 35))"
  by (induction steps arbitrary: h) (simp_all add: wrap_38 box_height_def algebra_simps)

subsection \<open>Arrows and the whole image\<close>

lemma draw_arrow_append: "draw_arrow draw p q c = draw @ draw_arrow [] p q c"
  by (simp add: draw_arrow_def Let_def)

lemma observe_arrow:
  "boxes_of (draw_arrow [] p q c) = [] \<and> texts_of (draw_arrow [] p q c) = [] \<and>
   arrows_of (draw_arrow [] p q c) = [(p, q)] \<and> heads_of (draw_arrow [] p q c) = [(p, q)]"
  by (simp add: draw_arrow_def Let_def)

lemma arrow_loop_eq:
  assumes "\<forall>i \<in> set ixs. Suc i < length boxes"
  shows "arrow_loop draw boxes colour ixs
           = Inr (draw @ concat (map (\<lambda>i. draw_arrow [] (fst (arrow_seg boxes i))
                                             (snd (arrow_seg boxes i)) colour) ixs))"
  using assms
proof (induction ixs arbitrary: draw)
  case Nil
  show ?case by simp
next
  case (Cons i ixs)
  then have i: "Suc i < length boxes" and rest: "\<forall>j \<in> set ixs. Suc j < length boxes"
    by simp_all
  obtain x0 y0 x1 y1 where b: "boxes ! i = (x0, y0, x1, y1)"
    by (cases "boxes ! i") auto
  obtain x0' y0' x1' y1' where b': "boxes ! Suc i = (x0', y0', x1', y1')"
    by (cases "boxes ! Suc i") auto
  have step: "arrow_loop draw boxes colour (i # ixs)
                = arrow_loop (draw_arrow draw ((x0 + x1) div 2, y1 + 6) ((x0' + x1') div 2, y0' - 6) colour)
                    boxes colour ixs"
    using i b b' by (simp add: item_def)
  have seg: "arrow_seg boxes i = (((x0 + x1) div 2, y1 + 6), ((x0' + x1') div 2, y0' - 6))"
    by (simp add: arrow_seg_def b b' rect_left_def rect_right_def rect_top_def rect_bottom_def)
  show ?case
    unfolding step Cons.IH [OF rest]
    by (simp add: seg draw_arrow_append [of draw])
qed

lemma observe_arrows:
  "boxes_of (concat (map (\<lambda>i. draw_arrow [] (f i) (g i) c) ixs)) = [] \<and>
   texts_of (concat (map (\<lambda>i. draw_arrow [] (f i) (g i) c) ixs)) = [] \<and>
   arrows_of (concat (map (\<lambda>i. draw_arrow [] (f i) (g i) c) ixs)) = map (\<lambda>i. (f i, g i)) ixs \<and>
   heads_of (concat (map (\<lambda>i. draw_arrow [] (f i) (g i) c) ixs)) = map (\<lambda>i. (f i, g i)) ixs"
  by (induction ixs)
    (simp_all add: boxes_of_append texts_of_append arrows_of_append heads_of_append observe_arrow)

lemma length_layout: "length (layout y steps) = length steps"
  by (induction steps arbitrary: y) simp_all

lemma layout_nth:
  "i < length steps \<Longrightarrow>
   layout y steps ! i
     = (190, y + (\<Sum>s \<leftarrow> take i steps. box_height s + 35), 810,
        y + (\<Sum>s \<leftarrow> take i steps. box_height s + 35) + box_height (steps ! i))"
proof (induction steps arbitrary: y i)
  case Nil
  then show ?case by simp
next
  case (Cons s steps)
  show ?case
  proof (cases i)
    case 0
    then show ?thesis by simp
  next
    case (Suc j)
    then have "j < length steps"
      using Cons.prems by simp
    then show ?thesis
      using Cons.IH [of j "y + box_height s + 35"] Suc by (simp add: algebra_simps)
  qed
qed

lemma draw_roadmap_eq:
  assumes "THEMES theme_name = Some theme"
  shows "\<exists>img. draw_roadmap steps theme_name = Inr (''/tmp/roadmap.png'', img) \<and>
           img_size img = (1000, 60 + 60 + (\<Sum>s \<leftarrow> steps. box_height s + 35)) \<and>
           img_bg img = bg theme \<and>
           boxes_of (drawn img) = layout 60 steps \<and>
           arrows_of (drawn img) = map (arrow_seg (layout 60 steps)) [0..<length steps - 1] \<and>
           heads_of (drawn img) = map (arrow_seg (layout 60 steps)) [0..<length steps - 1] \<and>
           texts_of (drawn img) = concat (map wrapped_lines steps)"
proof -
  obtain draw where
    bl: "box_loop 500 35 620 theme [] 60 [] steps
           = Inr (draw, 60 + (\<Sum>s \<leftarrow> steps. box_height s + 35), [] @ layout 60 steps)"
    and obs: "boxes_of draw = boxes_of [] @ layout 60 steps" "arrows_of draw = arrows_of []"
      "heads_of draw = heads_of []" "texts_of draw = texts_of [] @ concat (map wrapped_lines steps)"
    using box_loop_eq [of theme "[]" 60 "[]" steps] by blast
  have range: "py_range (int (length (layout 60 steps)) - 1) = [0..<length steps - 1]"
    by (simp add: py_range_def length_layout nat_diff_distrib')
  have "\<forall>i \<in> set [0..<length steps - 1]. Suc i < length (layout 60 steps)"
    by (auto simp add: length_layout)
  note al = arrow_loop_eq [OF this, of draw "line theme"]
  have "draw_roadmap steps theme_name
          = Inr (''/tmp/roadmap.png'',
                 \<lparr>img_size = (1000, 60 + 60 + (\<Sum>s \<leftarrow> steps. box_height s + 35)),
                    img_bg = bg theme,
                    drawn = draw @ concat (map (\<lambda>i. draw_arrow [] (fst (arrow_seg (layout 60 steps) i))
                                                         (snd (arrow_seg (layout 60 steps) i)) (line theme))
                                              [0..<length steps - 1])\<rparr>)"
    unfolding draw_roadmap_def Let_def
    by (simp only: assms option.case height_loop_eq sum.case bl prod.case append_Nil range al)
  then show ?thesis
    using obs
    by (simp add: boxes_of_append arrows_of_append heads_of_append texts_of_append observe_arrows)
qed

lemma themes_dom:
  assumes "theme_name \<in> {''Purple'', ''Blue'', ''Dark''}"
  shows "\<exists>theme. THEMES theme_name = Some theme"
  using assms by (auto simp add: THEMES_def)

lemma box_height_ge: "34 \<le> box_height s"
  by (simp add: box_height_def)

lemma gaps_nonneg: "0 \<le> (\<Sum>s \<leftarrow> steps. box_height s + 35)"
proof (rule sum_list_nonneg)
  fix x assume "x \<in> set (map (\<lambda>s. box_height s + 35) steps)"
  then obtain s where "x = box_height s + 35" by auto
  then show "0 \<le> x" using box_height_ge [of s] by simp
qed

lemma layout_bounds:
  "b \<in> set (layout y steps) \<Longrightarrow>
   rect_left b = 190 \<and> rect_right b = 810 \<and> y \<le> rect_top b \<and> rect_top b + 34 \<le> rect_bottom b \<and>
   rect_bottom b + 35 \<le> y + (\<Sum>s \<leftarrow> steps. box_height s + 35)"
proof (induction steps arbitrary: y)
  case Nil
  then show ?case by simp
next
  case (Cons s steps)
  show ?case
  proof (cases "b = (190, y, 810, y + box_height s)")
    case True
    then show ?thesis
      using box_height_ge [of s] gaps_nonneg [of steps]
      by (simp add: rect_left_def rect_right_def rect_top_def rect_bottom_def)
  next
    case False
    then have "b \<in> set (layout (y + box_height s + 35) steps)"
      using Cons.prems by simp
    from Cons.IH [OF this] show ?thesis
      using box_height_ge [of s] by simp
  qed
qed

lemma layout_last:
  "steps \<noteq> [] \<Longrightarrow>
   rect_bottom (last (layout y steps)) + 35 = y + (\<Sum>s \<leftarrow> steps. box_height s + 35)"
proof (induction steps arbitrary: y)
  case Nil
  then show ?case by simp
next
  case (Cons s steps)
  show ?case
  proof (cases "steps = []")
    case True
    then show ?thesis by (simp add: rect_bottom_def)
  next
    case False
    then have "layout (y + box_height s + 35) steps \<noteq> []"
      using length_layout [of "y + box_height s + 35" steps] by auto
    then show ?thesis
      using Cons.IH [OF False, of "y + box_height s + 35"] by simp
  qed
qed

lemma box_top_Suc:
  "i < length steps \<Longrightarrow> box_top steps (Suc i) = box_top steps i + box_height (steps ! i) + 35"
  by (simp add: box_top_def take_Suc_conv_app_nth)

lemma layout_60_nth:
  "i < length steps \<Longrightarrow>
   layout 60 steps ! i = (190, box_top steps i, 810, box_top steps i + box_height (steps ! i))"
  by (simp add: layout_nth box_top_def)

text \<open>
  Claim C6, as stated, fails for a negative width: the right edge \<open>cx - w div 2 + w\<close> is
  then left of the left edge \<open>cx - w div 2\<close>, the rounded rectangle is refused with
  ValueError, and \<open>draw_box\<close> returns no bounds. For the width \<open>-621\<close> around 500 the
  edges would be 811 and 190.
\<close>

theorem draw_box_counterexample:
  "500 - (- 621) div 2 = (811 :: int) \<and> 500 - (- 621) div 2 + (- 621) = (190 :: int) \<and>
   draw_box [] 500 60 (- 621) ''Learn variables''
      \<lparr>bg = ''white'', box = ''#E1BEE7'', line = ''#6A1B9A'', text_colour = ''black''\<rparr>
     = Inl ValueError"
  by (simp add: draw_box_negative)

text \<open>
  Claim C6, amended. For every centre \<open>cx\<close>, top \<open>y\<close>, step and theme, and every width
  \<open>w\<close> that is not negative, \<open>draw_box\<close> takes as height 34 plus 18 for each line of the
  step wrapped at 38, draws the rounded rectangle from \<open>(cx - w div 2, y)\<close> to
  \<open>(cx - w div 2 + w, y + height)\<close> with the box and line colours of the theme, then the
  wrapped lines 18 apart from \<open>y + 12\<close> on, and returns the bounds of that rectangle. For
  a negative width it raises ValueError.
\<close>

theorem draw_box_bounds:
  "wrap s 38 = Inr (wrapped_lines s) \<and>
   box_height s = 34 + 18 * int (length (wrapped_lines s)) \<and>
   draw_box draw cx y w s theme =
     (if w < 0 then Inl ValueError
      else Inr (draw @ RoundedRectangle (cx - w div 2, y, cx - w div 2 + w, y + box_height s) 20
                        (box theme) (line theme) 3
                    # map (\<lambda>i. Text (y + 12 + 18 * int i) (wrapped_lines s ! i) (text_colour theme))
                        [0..<length (wrapped_lines s)],
                (cx - w div 2, y, cx - w div 2 + w, y + box_height s)))"
proof (intro conjI)
  show "wrap s 38 = Inr (wrapped_lines s)"
    by (rule wrap_38)
  show "box_height s = 34 + 18 * int (length (wrapped_lines s))"
    by (simp add: box_height_def)
  show "draw_box draw cx y w s theme =
     (if w < 0 then Inl ValueError
      else Inr (draw @ RoundedRectangle (cx - w div 2, y, cx - w div 2 + w, y + box_height s) 20
                        (box theme) (line theme) 3
                    # map (\<lambda>i. Text (y + 12 + 18 * int i) (wrapped_lines s ! i) (text_colour theme))
                        [0..<length (wrapped_lines s)],
                (cx - w div 2, y, cx - w div 2 + w, y + box_height s)))"
  proof (cases "w < 0")
    case True
    then show ?thesis
      by (simp add: draw_box_negative)
  next
    case False
    then have "0 \<le> w"
      by simp
    from draw_box_eq [OF this] show ?thesis
      using False by simp
  qed
qed

theorem draw_box_bounds_witness:
  "draw_box [] 500 60 620 ''Learn variables''
      \<lparr>bg = ''white'', box = ''#E1BEE7'', line = ''#6A1B9A'', text_colour = ''black''\<rparr>
     = Inr ([RoundedRectangle (190, 60, 810, 112) 20 ''#E1BEE7'' ''#6A1B9A'' 3,
             Text 72 ''Learn variables'' ''black''],
            (190, 60, 810, 112))"
proof -
  have lines: "wrapped_lines ''Learn variables'' = [''Learn variables'']"
    by code_simp
  have "box_height ''Learn variables'' = 52"
    by (simp add: box_height_def lines)
  then show ?thesis
    using draw_box_bounds [of "''Learn variables''" "[]" 500 60 620
        "\<lparr>bg = ''white'', box = ''#E1BEE7'', line = ''#6A1B9A'', text_colour = ''black''\<rparr>"]
    by (simp add: lines)
qed

text \<open>
  Claim C3. With a theme of the table, \<open>draw_roadmap\<close> on \<open>n\<close> steps draws exactly \<open>n\<close>
  boxes and exactly \<open>max 0 (n - 1)\<close> arrows, each arrow a segment and a head.
\<close>

theorem box_and_arrow_count:
  assumes "theme_name \<in> {''Purple'', ''Blue'', ''Dark''}"
  shows "\<exists>img. draw_roadmap steps theme_name = Inr (''/tmp/roadmap.png'', img) \<and>
           length (boxes_of (drawn img)) = length steps \<and>
           int (length (arrows_of (drawn img))) = max 0 (int (length steps) - 1) \<and>
           int (length (heads_of (drawn img))) = max 0 (int (length steps) - 1)"
proof -
  obtain theme where "THEMES theme_name = Some theme"
    using themes_dom [OF assms] by blast
  from draw_roadmap_eq [OF this, of steps] obtain img where
    "draw_roadmap steps theme_name = Inr (''/tmp/roadmap.png'', img)"
    "boxes_of (drawn img) = layout 60 steps"
    "arrows_of (drawn img) = map (arrow_seg (layout 60 steps)) [0..<length steps - 1]"
    "heads_of (drawn img) = map (arrow_seg (layout 60 steps)) [0..<length steps - 1]"
    by blast
  moreover have "int (length steps - 1) = max 0 (int (length steps) - 1)"
    by (cases steps) simp_all
  ultimately show ?thesis
    by (simp add: length_layout)
qed

theorem box_and_arrow_count_witness:
  "''Purple'' \<in> {''Purple'', ''Blue'', ''Dark''} \<and>
   (\<exists>img. draw_roadmap [''Learn variables'', ''Learn functions'', ''Build a project''] ''Purple''
             = Inr (''/tmp/roadmap.png'', img) \<and>
          length (boxes_of (drawn img)) = 3 \<and>
          length (arrows_of (drawn img)) = 2 \<and> length (heads_of (drawn img)) = 2)"
proof -
  have h: "''Purple'' \<in> {''Purple'', ''Blue'', ''Dark''}"
    by simp
  from box_and_arrow_count [OF h, of "[''Learn variables'', ''Learn functions'', ''Build a project'']"]
  obtain img where
    dr: "draw_roadmap [''Learn variables'', ''Learn functions'', ''Build a project''] ''Purple''
           = Inr (''/tmp/roadmap.png'', img)"
    and n: "length (boxes_of (drawn img)) = length [''Learn variables'', ''Learn functions'', ''Build a project'']"
      "int (length (arrows_of (drawn img)))
         = max 0 (int (length [''Learn variables'', ''Learn functions'', ''Build a project'']) - 1)"
      "int (length (heads_of (drawn img)))
         = max 0 (int (length [''Learn variables'', ''Learn functions'', ''Build a project'']) - 1)"
    by blast
  have "length (boxes_of (drawn img)) = 3" "length (arrows_of (drawn img)) = 2"
    "length (heads_of (drawn img)) = 2"
    using n by simp_all
  then show ?thesis
    using h dr by blast
qed

text \<open>
  Claim C4. With a theme of the table, the boxes that \<open>draw_roadmap\<close> draws are, in
  drawing order, the boxes of the steps in the order supplied: box \<open>i\<close> spans 190 to
  810, so its centre is at 500, starts at \<open>box_top steps i\<close> (60 for the first) and has
  the height of step \<open>i\<close>; the top of box \<open>i + 1\<close> is the bottom of box \<open>i\<close> plus the gap
  35; the text lines are those of the steps in order; and arrow \<open>i\<close>, for every \<open>i\<close> with
  a next box and for no other, runs from the bottom centre of box \<open>i\<close>, 6 lower, to the
  top centre of box \<open>i + 1\<close>, 6 higher.
\<close>

theorem boxes_and_arrows_in_order:
  assumes "theme_name \<in> {''Purple'', ''Blue'', ''Dark''}"
  shows "\<exists>img. draw_roadmap steps theme_name = Inr (''/tmp/roadmap.png'', img) \<and>
           length (boxes_of (drawn img)) = length steps \<and>
           (\<forall>i < length steps.
              rect_left (boxes_of (drawn img) ! i) = 190 \<and>
              rect_right (boxes_of (drawn img) ! i) = 810 \<and>
              (rect_left (boxes_of (drawn img) ! i) + rect_right (boxes_of (drawn img) ! i)) div 2 = 500 \<and>
              rect_top (boxes_of (drawn img) ! i) = box_top steps i \<and>
              rect_bottom (boxes_of (drawn img) ! i)
                = rect_top (boxes_of (drawn img) ! i) + box_height (steps ! i)) \<and>
           box_top steps 0 = 60 \<and>
           (\<forall>i. Suc i < length steps \<longrightarrow>
              rect_top (boxes_of (drawn img) ! Suc i) = rect_bottom (boxes_of (drawn img) ! i) + 35) \<and>
           texts_of (drawn img) = concat (map wrapped_lines steps) \<and>
           arrows_of (drawn img)
             = map (\<lambda>i. ((500, rect_bottom (boxes_of (drawn img) ! i) + 6),
                         (500, rect_top (boxes_of (drawn img) ! Suc i) - 6)))
                 [0..<length steps - 1] \<and>
           heads_of (drawn img) = arrows_of (drawn img)"
proof -
  obtain theme where "THEMES theme_name = Some theme"
    using themes_dom [OF assms] by blast
  from draw_roadmap_eq [OF this, of steps] obtain img where
    dr: "draw_roadmap steps theme_name = Inr (''/tmp/roadmap.png'', img)"
    and bs: "boxes_of (drawn img) = layout 60 steps"
    and ar: "arrows_of (drawn img) = map (arrow_seg (layout 60 steps)) [0..<length steps - 1]"
    and hd: "heads_of (drawn img) = map (arrow_seg (layout 60 steps)) [0..<length steps - 1]"
    and tx: "texts_of (drawn img) = concat (map wrapped_lines steps)"
    by blast
  have nth: "rect_left (layout 60 steps ! i) = 190 \<and> rect_right (layout 60 steps ! i) = 810 \<and>
      rect_top (layout 60 steps ! i) = box_top steps i \<and>
      rect_bottom (layout 60 steps ! i) = box_top steps i + box_height (steps ! i)"
    if "i < length steps" for i
    using that by (simp add: layout_60_nth rect_left_def rect_right_def rect_top_def rect_bottom_def)
  have each: "\<forall>i < length steps.
      rect_left (layout 60 steps ! i) = 190 \<and>
      rect_right (layout 60 steps ! i) = 810 \<and>
      (rect_left (layout 60 steps ! i) + rect_right (layout 60 steps ! i)) div 2 = 500 \<and>
      rect_top (layout 60 steps ! i) = box_top steps i \<and>
      rect_bottom (layout 60 steps ! i) = rect_top (layout 60 steps ! i) + box_height (steps ! i)"
    using nth by simp
  have nxt: "\<forall>i. Suc i < length steps \<longrightarrow>
      rect_top (layout 60 steps ! Suc i) = rect_bottom (layout 60 steps ! i) + 35"
  proof (intro allI impI)
    fix i assume i: "Suc i < length steps"
    then have "i < length steps" by simp
    then show "rect_top (layout 60 steps ! Suc i) = rect_bottom (layout 60 steps ! i) + 35"
      using nth [OF i] nth [OF \<open>i < length steps\<close>] by (simp add: box_top_Suc)
  qed
  have segs: "map (arrow_seg (layout 60 steps)) [0..<length steps - 1]
      = map (\<lambda>i. ((500, rect_bottom (layout 60 steps ! i) + 6),
                  (500, rect_top (layout 60 steps ! Suc i) - 6))) [0..<length steps - 1]"
  proof (rule map_cong [OF refl])
    fix i assume "i \<in> set [0..<length steps - 1]"
    then have i: "Suc i < length steps" and i': "i < length steps"
      by auto
    show "arrow_seg (layout 60 steps) i
            = ((500, rect_bottom (layout 60 steps ! i) + 6), (500, rect_top (layout 60 steps ! Suc i) - 6))"
      using nth [OF i] nth [OF i'] by (simp add: arrow_seg_def)
  qed
  have top0: "box_top steps 0 = 60"
    by (simp add: box_top_def)
  show ?thesis
  proof (intro exI [of _ img] conjI)
    show "draw_roadmap steps theme_name = Inr (''/tmp/roadmap.png'', img)"
      by (rule dr)
    show "length (boxes_of (drawn img)) = length steps"
      by (simp add: bs length_layout)
    show "\<forall>i < length steps.
              rect_left (boxes_of (drawn img) ! i) = 190 \<and>
              rect_right (boxes_of (drawn img) ! i) = 810 \<and>
              (rect_left (boxes_of (drawn img) ! i) + rect_right (boxes_of (drawn img) ! i)) div 2 = 500 \<and>
              rect_top (boxes_of (drawn img) ! i) = box_top steps i \<and>
              rect_bottom (boxes_of (drawn img) ! i)
                = rect_top (boxes_of (drawn img) ! i) + box_height (steps ! i)"
      unfolding bs by (rule each)
    show "box_top steps 0 = 60"
      by (rule top0)
    show "\<forall>i. Suc i < length steps \<longrightarrow>
              rect_top (boxes_of (drawn img) ! Suc i) = rect_bottom (boxes_of (drawn img) ! i) + 35"
      unfolding bs by (rule nxt)
    show "texts_of (drawn img) = concat (map wrapped_lines steps)"
      by (rule tx)
    show "arrows_of (drawn img)
             = map (\<lambda>i. ((500, rect_bottom (boxes_of (drawn img) ! i) + 6),
                         (500, rect_top (boxes_of (drawn img) ! Suc i) - 6)))
                 [0..<length steps - 1]"
      unfolding ar bs by (rule segs)
    show "heads_of (drawn img) = arrows_of (drawn img)"
      by (simp only: hd ar)
  qed
qed

theorem boxes_and_arrows_in_order_witness:
  "''Purple'' \<in> {''Purple'', ''Blue'', ''Dark''} \<and>
   (\<exists>img. draw_roadmap [''Learn variables'', ''Learn functions'', ''Build a project''] ''Purple''
             = Inr (''/tmp/roadmap.png'', img) \<and>
          boxes_of (drawn img) = [(190, 60, 810, 112), (190, 147, 810, 199), (190, 234, 810, 286)] \<and>
          texts_of (drawn img) = [''Learn variables'', ''Learn functions'', ''Build a project''] \<and>
          arrows_of (drawn img) = [((500, 118), (500, 141)), ((500, 205), (500, 228))] \<and>
          heads_of (drawn img) = [((500, 118), (500, 141)), ((500, 205), (500, 228))])"
proof -
  define steps where "steps = [''Learn variables'', ''Learn functions'', ''Build a project'']"
  have h: "''Purple'' \<in> {''Purple'', ''Blue'', ''Dark''}"
    by simp
  have th: "THEMES ''Purple''
     = Some \<lparr>bg = ''white'', box = ''#E1BEE7'', line = ''#6A1B9A'', text_colour = ''black''\<rparr>"
    by (simp add: THEMES_def)
  from boxes_and_arrows_in_order [OF h, of steps]
  obtain img where
    dr: "draw_roadmap steps ''Purple'' = Inr (''/tmp/roadmap.png'', img)"
    and hd: "heads_of (drawn img) = arrows_of (drawn img)"
    by blast
  from draw_roadmap_eq [OF th, of steps] obtain img' where
    dr': "draw_roadmap steps ''Purple'' = Inr (''/tmp/roadmap.png'', img')"
    and bs': "boxes_of (drawn img') = layout 60 steps"
    and ar': "arrows_of (drawn img') = map (arrow_seg (layout 60 steps)) [0..<length steps - 1]"
    and tx': "texts_of (drawn img') = concat (map wrapped_lines steps)"
    by blast
  have same: "img' = img"
    using dr dr' by simp
  have wl: "wrapped_lines ''Learn variables'' = [''Learn variables'']"
    "wrapped_lines ''Learn functions'' = [''Learn functions'']"
    "wrapped_lines ''Build a project'' = [''Build a project'']"
    by code_simp+
  have lay: "layout 60 steps = [(190, 60, 810, 112), (190, 147, 810, 199), (190, 234, 810, 286)]"
    by (simp add: steps_def box_height_def wl)
  have idx: "[0..<length steps - 1] = [0, Suc 0]"
    by (simp add: steps_def upt_rec)
  have bs: "boxes_of (drawn img) = [(190, 60, 810, 112), (190, 147, 810, 199), (190, 234, 810, 286)]"
    using bs' by (simp only: same lay)
  have tx: "texts_of (drawn img) = [''Learn variables'', ''Learn functions'', ''Build a project'']"
    using tx' by (simp add: same steps_def wl)
  have ar: "arrows_of (drawn img) = [((500, 118), (500, 141)), ((500, 205), (500, 228))]"
    using ar' unfolding same lay idx
    by (simp add: arrow_seg_def rect_left_def rect_right_def rect_top_def rect_bottom_def)
  show ?thesis
    using h dr bs tx ar hd unfolding steps_def by auto
qed

subsection \<open>The height of the canvas\<close>

lemma canvas_height_eq:
  assumes "THEMES theme_name = Some theme"
  shows "canvas_height (draw_roadmap steps theme_name)
           = Some (60 + 60 + (\<Sum>s \<leftarrow> steps. box_height s + 35))"
proof -
  from draw_roadmap_eq [OF assms, of steps] obtain img where
    "draw_roadmap steps theme_name = Inr (''/tmp/roadmap.png'', img)"
    "img_size img = (1000, 60 + 60 + (\<Sum>s \<leftarrow> steps. box_height s + 35))"
    by blast
  then show ?thesis
    by (simp add: canvas_height_def)
qed

lemma final_cursor_eq:
  "final_cursor (box_loop 500 35 620 theme [] 60 [] steps)
     = Some (60 + (\<Sum>s \<leftarrow> steps. box_height s + 35))"
  using box_loop_eq [of theme "[]" 60 "[]" steps] by (auto simp add: final_cursor_def)

text \<open>
  Claim C1, as stated, fails: the canvas is not the top margin plus the boxes and gaps,
  and the cursor after the placement loop is not the height. For the single step
  ``Learn variables'', whose box is 52 high, the top margin, the box and the gap make
  147, which is where the cursor ends, and the canvas is 207 high.
\<close>

theorem canvas_height_counterexample:
  "box_height ''Learn variables'' = 52 \<and>
   60 + (\<Sum>s \<leftarrow> [''Learn variables'']. box_height s + 35) = 147 \<and>
   final_cursor (box_loop 500 35 620
       \<lparr>bg = ''white'', box = ''#E1BEE7'', line = ''#6A1B9A'', text_colour = ''black''\<rparr>
       [] 60 [] [''Learn variables'']) = Some 147 \<and>
   canvas_height (draw_roadmap [''Learn variables''] ''Purple'') = Some 207 \<and>
   canvas_height (draw_roadmap [''Learn variables''] ''Purple'')
     \<noteq> Some (60 + (\<Sum>s \<leftarrow> [''Learn variables'']. box_height s + 35))"
proof -
  have th: "THEMES ''Purple''
     = Some \<lparr>bg = ''white'', box = ''#E1BEE7'', line = ''#6A1B9A'', text_colour = ''black''\<rparr>"
    by (simp add: THEMES_def)
  have bh: "box_height ''Learn variables'' = 52"
    by code_simp
  have total: "60 + (\<Sum>s \<leftarrow> [''Learn variables'']. box_height s + 35) = 147"
    by (simp add: bh)
  have fc: "final_cursor (box_loop 500 35 620
       \<lparr>bg = ''white'', box = ''#E1BEE7'', line = ''#6A1B9A'', text_colour = ''black''\<rparr>
       [] 60 [] [''Learn variables'']) = Some 147"
    unfolding final_cursor_eq total by (rule refl)
  have "canvas_height (draw_roadmap [''Learn variables''] ''Purple'')
          = Some (60 + 60 + (\<Sum>s \<leftarrow> [''Learn variables'']. box_height s + 35))"
    by (rule canvas_height_eq [OF th])
  then have ch: "canvas_height (draw_roadmap [''Learn variables''] ''Purple'') = Some 207"
    by (simp add: bh)
  have "canvas_height (draw_roadmap [''Learn variables''] ''Purple'')
          \<noteq> Some (60 + (\<Sum>s \<leftarrow> [''Learn variables'']. box_height s + 35))"
    unfolding ch total by simp
  then show ?thesis
    using bh total fc ch by (intro conjI)
qed

text \<open>
  Claim C1, amended. With a theme of the table, the height of the canvas is the top
  margin 60, plus box height and gap for every step, plus a bottom margin of 60; the
  cursor after the placement loop is 60 less than the height. So no box is clipped:
  every box lies between 190 and 810 of the 1000 columns, starts at 60 or lower, and
  ends at least a gap and the bottom margin above the lower edge of the canvas; below
  the last box there is exactly one gap and the bottom margin.
\<close>

theorem canvas_height_margins:
  assumes "THEMES theme_name = Some theme"
  shows "canvas_height (draw_roadmap steps theme_name)
           = Some (60 + (\<Sum>s \<leftarrow> steps. box_height s + 35) + 60) \<and>
         final_cursor (box_loop 500 35 620 theme [] 60 [] steps)
           = Some (60 + (\<Sum>s \<leftarrow> steps. box_height s + 35)) \<and>
         (\<exists>img. draw_roadmap steps theme_name = Inr (''/tmp/roadmap.png'', img) \<and>
            (\<forall>b \<in> set (boxes_of (drawn img)).
               0 \<le> rect_left b \<and> rect_right b \<le> fst (img_size img) \<and>
               60 \<le> rect_top b \<and> rect_top b < rect_bottom b \<and>
               rect_bottom b + 35 + 60 \<le> snd (img_size img)) \<and>
            (steps \<noteq> [] \<longrightarrow>
               rect_bottom (last (boxes_of (drawn img))) + 35 + 60 = snd (img_size img)))"
proof -
  from draw_roadmap_eq [OF assms, of steps] obtain img where
    dr: "draw_roadmap steps theme_name = Inr (''/tmp/roadmap.png'', img)"
    and sz: "img_size img = (1000, 60 + 60 + (\<Sum>s \<leftarrow> steps. box_height s + 35))"
    and bs: "boxes_of (drawn img) = layout 60 steps"
    by blast
  have "final_cursor (box_loop 500 35 620 theme [] 60 [] steps)
          = Some (60 + (\<Sum>s \<leftarrow> steps. box_height s + 35))"
    using box_loop_eq [of theme "[]" 60 "[]" steps] by (auto simp add: final_cursor_def)
  moreover have "canvas_height (draw_roadmap steps theme_name)
                   = Some (60 + (\<Sum>s \<leftarrow> steps. box_height s + 35) + 60)"
    by (simp add: dr sz canvas_height_def)
  moreover have "\<forall>b \<in> set (boxes_of (drawn img)).
               0 \<le> rect_left b \<and> rect_right b \<le> fst (img_size img) \<and>
               60 \<le> rect_top b \<and> rect_top b < rect_bottom b \<and>
               rect_bottom b + 35 + 60 \<le> snd (img_size img)"
  proof
    fix b assume "b \<in> set (boxes_of (drawn img))"
    then have "b \<in> set (layout 60 steps)"
      by (simp add: bs)
    from layout_bounds [OF this] show "0 \<le> rect_left b \<and> rect_right b \<le> fst (img_size img) \<and>
               60 \<le> rect_top b \<and> rect_top b < rect_bottom b \<and>
               rect_bottom b + 35 + 60 \<le> snd (img_size img)"
      by (simp add: sz)
  qed
  moreover have "steps \<noteq> [] \<longrightarrow>
               rect_bottom (last (boxes_of (drawn img))) + 35 + 60 = snd (img_size img)"
    using layout_last [of steps 60] by (simp add: bs sz)
  ultimately show ?thesis
    using dr by blast
qed

theorem canvas_height_margins_witness:
  "THEMES ''Purple''
     = Some \<lparr>bg = ''white'', box = ''#E1BEE7'', line = ''#6A1B9A'', text_colour = ''black''\<rparr> \<and>
   canvas_height (draw_roadmap [''Learn variables''] ''Purple'') = Some 207 \<and>
   final_cursor (box_loop 500 35 620
       \<lparr>bg = ''white'', box = ''#E1BEE7'', line = ''#6A1B9A'', text_colour = ''black''\<rparr>
       [] 60 [] [''Learn variables'']) = Some 147"
proof -
  have th: "THEMES ''Purple''
     = Some \<lparr>bg = ''white'', box = ''#E1BEE7'', line = ''#6A1B9A'', text_colour = ''black''\<rparr>"
    by (simp add: THEMES_def)
  have bh: "box_height ''Learn variables'' = 52"
    by code_simp
  show ?thesis
    using th canvas_height_margins [OF th, of "[''Learn variables'']"] by (simp add: bh)
qed

subsection \<open>Arrow heads\<close>







subsection \<open>Wrapping\<close>


















subsection \<open>Where lines break\<close>






lemma break_pos_0: "break_pos ls 0 = 0"
  by (simp add: break_pos_def non_space_def)






subsection \<open>Where chunks meet\<close>














lemma length_concat_take_less:
  assumes "\<forall>c \<in> set cs. c \<noteq> []" and "m < length cs"
  shows "length (concat (take m cs)) < length (concat cs)"
proof -
  have "cs = take m cs @ cs ! m # drop (Suc m) cs"
    using assms(2) by (simp add: id_take_nth_drop)
  then have "length (concat cs) = length (concat (take m cs)) + length (cs ! m) + length (concat (drop (Suc m) cs))"
    by (metis append_Cons concat.simps(2) concat_append length_append add.assoc append_Nil)
  moreover have "cs ! m \<noteq> []"
    using assms by simp
  ultimately show ?thesis
    by simp
qed










subsection \<open>The lines of a text\<close>




end
